theory Spec2Isabelle
  imports
    Main
    "HOL-Library.Multiset"
    "HOL-Library.Char_ord"
    "HOL-Library.List_Lexorder"
    "HOL-Library.Product_Lexorder"
    "HOL-Library.AList"
begin

section \<open>Treeson: directory and repository listings as nested JSON\<close>

text \<open>
  A shallow embedding of \<^verbatim>\<open>treeson/cli.py\<close>: the configuration class
  \<^verbatim>\<open>TreesonConfig\<close>, the recursive directory walk \<^verbatim>\<open>dir_to_json\<close> and the
  loop of \<^verbatim>\<open>github_repo_to_json\<close> that rebuilds a tree from a flat path listing.

  Names are Python \<^verbatim>\<open>str\<close> values, modelled as \<^typ>\<open>string\<close>: a
  \<^typ>\<open>char\<close> is a code point below 256 (ASCII and Latin-1), and strings are compared
  character by character as Python compares code points. Names with a code point
  from 256 on are outside the embedding.
\<close>

subsection \<open>Values\<close>

text \<open>
  The value both functions return is a Python \<^verbatim>\<open>dict\<close> whose values are lists
  of strings or further dicts. A dict keeps its keys in insertion order and an
  assignment to an existing key keeps the key's position, which is what
  \<^const>\<open>AList.update\<close> does on an association list.
\<close>

datatype json = JList "string list" | JDict "(string \<times> json) list"

text \<open>The exception classes that the modelled code raises or lets through.\<close>

datatype error =
    DirectoryNotFoundError
  | TreesonError
  | PermissionError
  | NotADirectoryError
  | FileNotFoundError
  | AttributeError
  | TypeError
  | KeyError
  | GitHubAPIError

text \<open>
  \<^verbatim>\<open>class DirectoryNotFoundError(TreesonError)\<close> and
  \<^verbatim>\<open>class GitHubAPIError(TreesonError)\<close>: a handler for \<^verbatim>\<open>TreesonError\<close>
  catches the three of them.
\<close>

fun is_TreesonError :: "error \<Rightarrow> bool" where
  "is_TreesonError DirectoryNotFoundError = True"
| "is_TreesonError TreesonError = True"
| "is_TreesonError GitHubAPIError = True"
| "is_TreesonError _ = False"

subsection \<open>Configuration\<close>

definition DEFAULT_IGNORES :: "string set" where
  "DEFAULT_IGNORES =
     {''.git'', ''__pycache__'', ''.DS_Store'', ''node_modules'', ''venv'', ''.venv'',
      ''.idea'', ''.pytest_cache'', ''.mypy_cache'', ''.tox'', ''dist'', ''build'',
      ''*.egg-info''}"

record TreesonConfig =
  ignores :: "string set"
  include_hidden :: bool
  max_depth :: "int option"

definition default_config :: TreesonConfig where
  "default_config =
     \<lparr>ignores = DEFAULT_IGNORES, include_hidden = False, max_depth = None\<rparr>"

text \<open>\<^verbatim>\<open>name.startswith('.')\<close>\<close>

fun startswith_dot :: "string \<Rightarrow> bool" where
  "startswith_dot [] = False"
| "startswith_dot (c # cs) = (c = CHR ''.'')"

definition should_ignore :: "TreesonConfig \<Rightarrow> string \<Rightarrow> bool" where
  "should_ignore config name =
     (if \<not> include_hidden config \<and> startswith_dot name then True
      else name \<in> ignores config)"

subsection \<open>The file system seen through \<^verbatim>\<open>pathlib\<close>\<close>

text \<open>
  What a path resolves to. \<^verbatim>\<open>Path.exists\<close>, \<^verbatim>\<open>is_dir\<close> and
  \<^verbatim>\<open>is_file\<close> follow symbolic links and call \<^verbatim>\<open>stat\<close>:
  \<^item> \<open>RegularFile\<close>: a regular file;
  \<^item> \<open>Directory cs\<close>: a directory that can be listed, \<open>cs\<close> being its entries in
    the order in which \<^verbatim>\<open>iterdir\<close> yields them (the order is the operating
    system's, not sorted);
  \<^item> \<open>LockedDir\<close>: a directory whose listing is denied;
  \<^item> \<open>Special\<close>: something that exists and is neither (a socket, a FIFO, a device);
  \<^item> \<open>Missing\<close>: nothing, or a symbolic link whose target does not exist;
  \<^item> \<open>Unreachable\<close>: \<^verbatim>\<open>stat\<close> is denied, so the three predicates raise
    \<^verbatim>\<open>PermissionError\<close> (an entry of a directory without search permission, or a
    link into such a directory).
  A tree is finite: a symbolic link to a directory is the directory it points to, and
  cycles of links are not modelled.
\<close>

datatype fsnode =
    RegularFile
  | Directory "(string \<times> fsnode) list"
  | LockedDir
  | Special
  | Missing
  | Unreachable

fun path_exists :: "fsnode \<Rightarrow> error + bool" where
  "path_exists Unreachable = Inl PermissionError"
| "path_exists Missing = Inr False"
| "path_exists _ = Inr True"

fun is_dir :: "fsnode \<Rightarrow> error + bool" where
  "is_dir Unreachable = Inl PermissionError"
| "is_dir (Directory cs) = Inr True"
| "is_dir LockedDir = Inr True"
| "is_dir _ = Inr False"

fun is_file :: "fsnode \<Rightarrow> error + bool" where
  "is_file Unreachable = Inl PermissionError"
| "is_file RegularFile = Inr True"
| "is_file _ = Inr False"

fun iterdir :: "fsnode \<Rightarrow> error + (string \<times> fsnode) list" where
  "iterdir (Directory cs) = Inr cs"
| "iterdir LockedDir = Inl PermissionError"
| "iterdir Unreachable = Inl PermissionError"
| "iterdir Missing = Inl FileNotFoundError"
| "iterdir _ = Inl NotADirectoryError"

subsection \<open>Sorting the entries\<close>

text \<open>
  \<^verbatim>\<open>str.lower\<close> on the code points below 256. The cased code points there whose
  lower case differs are \<^verbatim>\<open>A\<close> to \<^verbatim>\<open>Z\<close> (65 to 90) and the Latin-1 capitals
  192 to 214 and 216 to 222; each is lowered by adding 32, and the string keeps its
  length. 215 is the multiplication sign, and 181, 223 and 255 are lower-case already.
\<close>

definition lower_char :: "char \<Rightarrow> char" where
  "lower_char c =
     (let n = (of_char c :: nat) in
      if (65 \<le> n \<and> n \<le> 90) \<or> (192 \<le> n \<and> n \<le> 214) \<or> (216 \<le> n \<and> n \<le> 222)
      then char_of (n + 32) else c)"

definition lower :: "string \<Rightarrow> string" where
  "lower s = map lower_char s"

text \<open>
  \<^verbatim>\<open>key=lambda x: (not x.is_dir(), x.name.lower())\<close>. A Python tuple is ordered
  lexicographically and \<^verbatim>\<open>False < True\<close>, as the pair is here.
\<close>

definition sort_key_of :: "string \<times> fsnode \<Rightarrow> error + (bool \<times> string)" where
  "sort_key_of x =
     (case is_dir (snd x) of Inl e \<Rightarrow> Inl e | Inr d \<Rightarrow> Inr (\<not> d, lower (fst x)))"

text \<open>
  \<^verbatim>\<open>sorted(xs, key=f)\<close> computes the key of every element first, in list order,
  so the first key that raises ends the call; then it sorts the elements by their
  keys, keeping elements of equal keys in their order (the sort is stable, as
  \<^const>\<open>sort_key\<close> is).
\<close>

fun keys_of :: "('a \<Rightarrow> error + 'k) \<Rightarrow> 'a list \<Rightarrow> error + 'k list" where
  "keys_of f [] = Inr []"
| "keys_of f (x # xs) =
     (case f x of
        Inl e \<Rightarrow> Inl e
      | Inr k \<Rightarrow> (case keys_of f xs of Inl e \<Rightarrow> Inl e | Inr ks \<Rightarrow> Inr (k # ks)))"

definition sorted_py :: "('a \<Rightarrow> error + 'k::linorder) \<Rightarrow> 'a list \<Rightarrow> error + 'a list" where
  "sorted_py f xs =
     (case keys_of f xs of
        Inl e \<Rightarrow> Inl e
      | Inr ks \<Rightarrow> Inr (map snd (sort_key fst (zip ks xs))))"

text \<open>\<^verbatim>\<open>sorted(path.iterdir(), key=...)\<close>\<close>

definition sorted_items :: "fsnode \<Rightarrow> error + (string \<times> fsnode) list" where
  "sorted_items node =
     (case iterdir node of Inl e \<Rightarrow> Inl e | Inr xs \<Rightarrow> sorted_py sort_key_of xs)"

subsection \<open>The directory walk\<close>

text \<open>The size of a tree, by which the walk terminates.\<close>

fun fs_size :: "fsnode \<Rightarrow> nat" where
  "fs_size (Directory cs) = Suc (sum_list (map (\<lambda>x. fs_size (snd x)) cs))"
| "fs_size _ = 1"


lemma fs_size_pos [simp]: "0 < fs_size n"
  by (cases n) auto

lemma sum_list_mset_cong:
  fixes g :: "'a \<Rightarrow> nat"
  assumes "mset ys = mset xs"
  shows "sum_list (map g ys) = sum_list (map g xs)"
proof -
  have "sum_mset (mset (map g ys)) = sum_mset (mset (map g xs))"
    using assms by (simp del: sum_mset_sum_list)
  then show ?thesis by (simp only: sum_mset_sum_list)
qed

lemma keys_of_length: "keys_of f xs = Inr ks \<Longrightarrow> length ks = length xs"
  by (induction xs arbitrary: ks) (auto split: sum.splits)

lemma sorted_py_mset: "sorted_py f xs = Inr ys \<Longrightarrow> mset ys = mset xs"
  unfolding sorted_py_def
  apply (auto split: sum.splits)
  apply (drule keys_of_length)
  apply (simp add: mset_map[symmetric] del: mset_map)
  done

lemma sorted_items_size:
  assumes "sorted_items node = Inr items"
  shows "sum_list (map (\<lambda>x. fs_size (snd x)) items) < fs_size node"
proof -
  from assms obtain cs where n: "node = Directory cs"
    and s: "sorted_py sort_key_of cs = Inr items"
    by (cases node) (auto simp: sorted_items_def)
  from s have "mset items = mset cs" by (rule sorted_py_mset)
  then have "sum_list (map (\<lambda>x. fs_size (snd x)) items)
      = sum_list (map (\<lambda>x. fs_size (snd x)) cs)"
    by (rule sum_list_mset_cong)
  with n show ?thesis by simp
qed

text \<open>\<^verbatim>\<open>result = {"files": []}\<close>\<close>

definition empty_result :: "(string \<times> json) list" where
  "empty_result = [(''files'', JList [])]"

text \<open>\<^verbatim>\<open>config.max_depth is not None and current_depth >= config.max_depth\<close>\<close>

definition depth_limited :: "TreesonConfig \<Rightarrow> int \<Rightarrow> bool" where
  "depth_limited config current_depth =
     (case max_depth config of None \<Rightarrow> False | Some m \<Rightarrow> current_depth \<ge> m)"

text \<open>
  The handler \<^verbatim>\<open>except PermissionError\<close> of the loop body: it prints a warning
  that names the entry and goes on with the next entry; any other exception leaves
  the function. The warnings printed to \<^verbatim>\<open>sys.stderr\<close> are kept as the list of
  the paths they name, in the order printed.
\<close>

definition on_error :: "error \<Rightarrow> string list \<Rightarrow> (string \<times> json) list \<Rightarrow> string list list
    \<Rightarrow> (error + (string \<times> json) list) \<times> string list list" where
  "on_error e item result warns =
     (if e = PermissionError then (Inr result, warns @ [item]) else (Inl e, warns))"

text \<open>
  \<^verbatim>\<open>result["files"].append(name)\<close>: the value under \<^verbatim>\<open>"files"\<close> is a list
  unless a subdirectory named \<^verbatim>\<open>files\<close> has been stored under that key before, and
  a dict has no \<^verbatim>\<open>append\<close>.
\<close>

definition append_file :: "string \<Rightarrow> (string \<times> json) list \<Rightarrow> error + (string \<times> json) list" where
  "append_file name result =
     (case map_of result ''files'' of
        None \<Rightarrow> Inl KeyError
      | Some (JDict d) \<Rightarrow> Inl AttributeError
      | Some (JList fs) \<Rightarrow> Inr (AList.update ''files'' (JList (fs @ [name])) result))"

text \<open>
  \<open>dir_to_json path node config current_depth\<close>: \<open>path\<close> is the components of the
  \<^verbatim>\<open>Path\<close> and \<open>node\<close> what the file system holds there. The result is the
  returned dict or the exception raised, and the warnings printed. \<open>for_items\<close> is
  the loop \<^verbatim>\<open>for item in items\<close>, \<open>visit\<close> its body; an item is the entry's
  name and what it resolves to, its path being \<open>path @ [name]\<close>.
\<close>

function (sequential)
  dir_to_json :: "string list \<Rightarrow> fsnode \<Rightarrow> TreesonConfig \<Rightarrow> int
    \<Rightarrow> (error + json) \<times> string list list"
and for_items :: "string list \<Rightarrow> (string \<times> fsnode) list \<Rightarrow> TreesonConfig \<Rightarrow> int
    \<Rightarrow> (string \<times> json) list \<Rightarrow> string list list \<Rightarrow> (error + json) \<times> string list list"
and visit :: "string list \<Rightarrow> string \<times> fsnode \<Rightarrow> TreesonConfig \<Rightarrow> int
    \<Rightarrow> (string \<times> json) list \<Rightarrow> string list list
    \<Rightarrow> (error + (string \<times> json) list) \<times> string list list"
where
  "dir_to_json path node config current_depth =
     (case path_exists node of
        Inl e \<Rightarrow> (Inl e, [])
      | Inr False \<Rightarrow> (Inl DirectoryNotFoundError, [])
      | Inr True \<Rightarrow>
         (case is_dir node of
            Inl e \<Rightarrow> (Inl e, [])
          | Inr False \<Rightarrow> (Inl TreesonError, [])
          | Inr True \<Rightarrow>
             (if depth_limited config current_depth
              then (Inr (JDict empty_result), [])
              else
                (case sorted_items node of
                   Inl e \<Rightarrow>
                     (if e = PermissionError then (Inr (JDict empty_result), [path])
                      else (Inl e, []))
                 | Inr items \<Rightarrow> for_items path items config current_depth empty_result []))))"
| "for_items path [] config current_depth result warns = (Inr (JDict result), warns)"
| "for_items path (item # rest) config current_depth result warns =
     (case visit path item config current_depth result warns of
        (Inl e, warns') \<Rightarrow> (Inl e, warns')
      | (Inr result', warns') \<Rightarrow> for_items path rest config current_depth result' warns')"
| "visit path item config current_depth result warns =
     (if should_ignore config (fst item) then (Inr result, warns)
      else
        (case is_file (snd item) of
           Inl e \<Rightarrow> on_error e (path @ [fst item]) result warns
         | Inr True \<Rightarrow>
            (case append_file (fst item) result of
               Inl e \<Rightarrow> on_error e (path @ [fst item]) result warns
             | Inr result' \<Rightarrow> (Inr result', warns))
         | Inr False \<Rightarrow>
            (case is_dir (snd item) of
               Inl e \<Rightarrow> on_error e (path @ [fst item]) result warns
             | Inr False \<Rightarrow> (Inr result, warns)
             | Inr True \<Rightarrow>
                (case dir_to_json (path @ [fst item]) (snd item) config (current_depth + 1) of
                   (Inl e, w) \<Rightarrow> on_error e (path @ [fst item]) result (warns @ w)
                 | (Inr sub, w) \<Rightarrow> (Inr (AList.update (fst item) sub result), warns @ w)))))"
  by pat_completeness auto

termination
  apply (relation "measure (\<lambda>x. case x of
      Inl (p, node, c, d) \<Rightarrow> 3 * fs_size node
    | Inr (Inl (p, items, c, d, r, w)) \<Rightarrow> 3 * sum_list (map (\<lambda>x. fs_size (snd x)) items) + 2
    | Inr (Inr (p, item, c, d, r, w)) \<Rightarrow> 3 * fs_size (snd item) + 1)")
  apply simp
  apply (auto dest!: sorted_items_size)
  done

declare dir_to_json.simps [simp del] visit.simps [simp del]

subsection \<open>The tree of a flat listing\<close>

text \<open>
  Python's operations on a value that is a dict or a list, as
  \<^verbatim>\<open>github_repo_to_json\<close> uses them on \<^verbatim>\<open>current\<close>: \<^verbatim>\<open>k in c\<close>,
  \<^verbatim>\<open>c[k] = v\<close>, \<^verbatim>\<open>c[k]\<close> and \<^verbatim>\<open>c.append(x)\<close>. A list indexed by a string
  raises \<^verbatim>\<open>TypeError\<close>.
\<close>

fun py_contains :: "string \<Rightarrow> json \<Rightarrow> bool" where
  "py_contains k (JDict kvs) = (map_of kvs k \<noteq> None)"
| "py_contains k (JList xs) = (k \<in> set xs)"

fun py_setitem :: "string \<Rightarrow> json \<Rightarrow> json \<Rightarrow> error + json" where
  "py_setitem k v (JDict kvs) = Inr (JDict (AList.update k v kvs))"
| "py_setitem k v (JList xs) = Inl TypeError"

fun py_getitem :: "string \<Rightarrow> json \<Rightarrow> error + json" where
  "py_getitem k (JDict kvs) = (case map_of kvs k of None \<Rightarrow> Inl KeyError | Some v \<Rightarrow> Inr v)"
| "py_getitem k (JList xs) = Inl TypeError"

fun py_append :: "string \<Rightarrow> json \<Rightarrow> error + json" where
  "py_append x (JList xs) = Inr (JList (xs @ [x]))"
| "py_append x (JDict kvs) = Inl AttributeError"

text \<open>\<^verbatim>\<open>if k not in c: c[k] = v\<close>\<close>

definition setdefault :: "string \<Rightarrow> json \<Rightarrow> json \<Rightarrow> error + json" where
  "setdefault k v c = (if \<not> py_contains k c then py_setitem k v c else Inr c)"

text \<open>\<^verbatim>\<open>s.split("/")\<close>: never the empty list.\<close>

fun split_slash :: "string \<Rightarrow> string list" where
  "split_slash [] = [[]]"
| "split_slash (c # cs) =
     (if c = CHR ''/'' then [] # split_slash cs
      else (case split_slash cs of [] \<Rightarrow> [[c]] | w # ws \<Rightarrow> (c # w) # ws))"

text \<open>One entry of the listing: \<^verbatim>\<open>node["path"]\<close> and \<^verbatim>\<open>node["type"]\<close>.\<close>

record flat_entry =
  entry_path :: string
  entry_type :: string

text \<open>
  The last segment: \<^verbatim>\<open>current["files"].append(final_part)\<close> for a blob, a new
  empty node for a tree unless the key is there.
\<close>

definition add_final :: "string \<Rightarrow> string \<Rightarrow> json \<Rightarrow> error + json" where
  "add_final final_part ty current =
     (if ty = ''blob'' then
        (case setdefault ''files'' (JList []) current of
           Inl e \<Rightarrow> Inl e
         | Inr c \<Rightarrow>
            (case py_getitem ''files'' c of
               Inl e \<Rightarrow> Inl e
             | Inr fs \<Rightarrow>
                (case py_append final_part fs of
                   Inl e \<Rightarrow> Inl e
                 | Inr fs' \<Rightarrow> py_setitem ''files'' fs' c)))
      else if ty = ''tree'' then setdefault final_part (JDict empty_result) current
      else Inr current)"

text \<open>
  The walk along \<^verbatim>\<open>path_parts[:-1]\<close> and the step at \<^verbatim>\<open>path_parts[-1]\<close>. The
  Python moves the reference \<^verbatim>\<open>current\<close> down the tree and changes the node it
  reaches in place; here the changed child is stored back under its key on the way
  up. Every node the code creates is a fresh dict, so no two keys share a node.
\<close>

fun add_path :: "string list \<Rightarrow> string \<Rightarrow> json \<Rightarrow> error + json" where
  "add_path [] ty current = Inl KeyError"
| "add_path [final_part] ty current = add_final final_part ty current"
| "add_path (part # rest) ty current =
     (case setdefault part (JDict empty_result) current of
        Inl e \<Rightarrow> Inl e
      | Inr c \<Rightarrow>
         (case py_getitem part c of
            Inl e \<Rightarrow> Inl e
          | Inr child \<Rightarrow>
             (case add_path rest ty child of
                Inl e \<Rightarrow> Inl e
              | Inr child' \<Rightarrow> py_setitem part child' c)))"

text \<open>\<^verbatim>\<open>for node in tree\<close>, from \<^verbatim>\<open>root\<close>.\<close>

fun build_tree :: "TreesonConfig \<Rightarrow> flat_entry list \<Rightarrow> json \<Rightarrow> error + json" where
  "build_tree config [] root = Inr root"
| "build_tree config (node # tree) root =
     (let path_parts = split_slash (entry_path node) in
      if list_ex (should_ignore config) path_parts then build_tree config tree root
      else
        (case add_path path_parts (entry_type node) root of
           Inl e \<Rightarrow> Inl e
         | Inr root' \<Rightarrow> build_tree config tree root'))"

text \<open>
  \<open>github_repo_to_json config fetched\<close>: \<open>fetched\<close> is what the request for the
  listing came to, the exception raised before the loop or the list
  \<^verbatim>\<open>resp.json().get("tree", [])\<close>.
\<close>

definition github_repo_to_json :: "TreesonConfig \<Rightarrow> error + flat_entry list \<Rightarrow> error + json" where
  "github_repo_to_json config fetched =
     (case fetched of Inl e \<Rightarrow> Inl e | Inr tree \<Rightarrow> build_tree config tree (JDict []))"


subsection \<open>Notions used in the statements\<close>

text \<open>
  The exceptions that can leave the loop over a directory's entries: both come from
  \<^verbatim>\<open>result["files"].append\<close>.
\<close>

definition inner_error :: "error \<Rightarrow> bool" where
  "inner_error e = (e = KeyError \<or> e = AttributeError)"

text \<open>
  The names that occur in a tree: the entries of every file list and the key of every
  directory node, at any depth. The key of a file list (\<open>"files"\<close>) is structure, not a name.
\<close>

fun names_of :: "json \<Rightarrow> string set" where
  "names_of (JList xs) = set xs"
| "names_of (JDict kvs) =
     (\<Union>p \<in> set kvs. case snd p of JList xs \<Rightarrow> set xs | JDict d \<Rightarrow> insert (fst p) (names_of (snd p)))"

definition entry_names :: "string \<times> json \<Rightarrow> string set" where
  "entry_names p = (case snd p of JList xs \<Rightarrow> set xs | JDict d \<Rightarrow> insert (fst p) (names_of (snd p)))"

text \<open>The node found by following a path of keys from a node.\<close>

fun node_at :: "string list \<Rightarrow> json \<Rightarrow> json option" where
  "node_at [] c = Some c"
| "node_at (p # ps) (JDict kvs) = (case map_of kvs p of None \<Rightarrow> None | Some v \<Rightarrow> node_at ps v)"
| "node_at (p # ps) (JList xs) = None"

text \<open>
  The sort key of an entry whose \<^verbatim>\<open>stat\<close> is not denied:
  \<^verbatim>\<open>(not x.is_dir(), x.name.lower())\<close>.
\<close>

definition item_key :: "string \<times> fsnode \<Rightarrow> bool \<times> string" where
  "item_key x = (is_dir (snd x) \<noteq> Inr True, lower (fst x))"

text \<open>An entry that is neither a regular file nor a directory, with \<^verbatim>\<open>stat\<close> allowed.\<close>

definition neither :: "string \<times> fsnode \<Rightarrow> bool" where
  "neither x = (snd x = Special \<or> snd x = Missing)"

text \<open>The number of regular files under a node.\<close>

fun disk_files :: "fsnode \<Rightarrow> nat" where
  "disk_files RegularFile = 1"
| "disk_files (Directory cs) = sum_list (map (\<lambda>x. disk_files (snd x)) cs)"
| "disk_files _ = 0"

text \<open>
  The number of regular files in the directories that the depth limit lets the walk
  list, for a node that the walk reaches at depth \<open>d\<close>.
\<close>

fun visible_files :: "TreesonConfig \<Rightarrow> int \<Rightarrow> fsnode \<Rightarrow> nat" where
  "visible_files config d RegularFile = 1"
| "visible_files config d (Directory cs) =
     (if depth_limited config d then 0
      else sum_list (map (\<lambda>x. visible_files config (d + 1) (snd x)) cs))"
| "visible_files config d _ = 0"

text \<open>The number of entries of all the file lists of a tree.\<close>

fun total_files :: "json \<Rightarrow> nat" where
  "total_files (JList xs) = length xs"
| "total_files (JDict kvs) = sum_list (map (\<lambda>p. total_files (snd p)) kvs)"

text \<open>
  A tree in which every directory can be listed and \<^verbatim>\<open>stat\<close> is allowed on every
  entry, no name is ignored by the configuration, no directory is named
  \<^verbatim>\<open>files\<close>, and the names in a directory are distinct, as they are on disk.
\<close>

fun plain_tree :: "TreesonConfig \<Rightarrow> fsnode \<Rightarrow> bool" where
  "plain_tree config (Directory cs) =
     (distinct (map fst cs)
      \<and> (\<forall>x \<in> set cs. \<not> should_ignore config (fst x)
            \<and> (is_dir (snd x) = Inr True \<longrightarrow> fst x \<noteq> ''files'')
            \<and> plain_tree config (snd x)))"
| "plain_tree config RegularFile = True"
| "plain_tree config Special = True"
| "plain_tree config Missing = True"
| "plain_tree config LockedDir = False"
| "plain_tree config Unreachable = False"

section \<open>Properties\<close>

subsection \<open>Helper lemmas on the stat predicates\<close>

lemma is_dir_TrueD:
  "is_dir node = Inr True \<Longrightarrow> (\<exists>cs. node = Directory cs) \<or> node = LockedDir"
  by (cases node) auto

lemma is_dir_True_exists: "is_dir node = Inr True \<Longrightarrow> path_exists node = Inr True"
  by (cases node) auto

subsection \<open>The depth limit\<close>

text \<open>
  Claim C2. For a path that is a directory, whether its listing is allowed or not,
  and a limit \<open>max_depth = m\<close> with \<open>current_depth \<ge> m\<close>, \<open>dir_to_json\<close> returns
  \<^verbatim>\<open>{"files": []}\<close> and prints no warning, whatever the directory holds: the
  children are not listed (listing a \<open>LockedDir\<close> would print a warning). With
  \<open>max_depth = 0\<close> the call at depth \<open>0\<close> returns exactly \<^verbatim>\<open>{"files": []}\<close>.
\<close>

theorem dir_to_json_depth_limit:
  assumes "is_dir node = Inr True"
    and "max_depth config = Some m"
    and "m \<le> current_depth"
  shows "dir_to_json path node config current_depth = (Inr (JDict [(''files'', JList [])]), [])"
  using assms
  by (simp add: dir_to_json.simps is_dir_True_exists empty_result_def depth_limited_def)

theorem dir_to_json_depth_limit_witness:
  "dir_to_json [''proj'']
     (Directory [(''a.txt'', RegularFile), (''src'', Directory [(''m.py'', RegularFile)]),
                 (''locked'', LockedDir)])
     \<lparr>ignores = DEFAULT_IGNORES, include_hidden = False, max_depth = Some 0\<rparr> 0
   = (Inr (JDict [(''files'', JList [])]), [])"
  using dir_to_json_depth_limit [of
      "Directory [(''a.txt'', RegularFile), (''src'', Directory [(''m.py'', RegularFile)]),
                  (''locked'', LockedDir)]"
      "\<lparr>ignores = DEFAULT_IGNORES, include_hidden = False, max_depth = Some 0\<rparr>" 0 0 "[''proj'']"]
  by simp

subsection \<open>Exceptions of the walk\<close>

lemma sort_key_of_error: "sort_key_of x = Inl e \<Longrightarrow> e = PermissionError"
  by (cases "snd x") (auto simp: sort_key_of_def)

lemma keys_of_error:
  "keys_of sort_key_of xs = Inl e \<Longrightarrow> e = PermissionError"
  by (induction xs) (auto split: sum.splits dest: sort_key_of_error)

lemma sorted_py_error: "sorted_py sort_key_of xs = Inl e \<Longrightarrow> e = PermissionError"
  by (auto simp: sorted_py_def split: sum.splits dest: keys_of_error)

lemma sorted_items_error:
  "is_dir node = Inr True \<Longrightarrow> sorted_items node = Inl e \<Longrightarrow> e = PermissionError"
  by (cases node) (auto simp: sorted_items_def dest: sorted_py_error)

lemma on_error_Inl:
  "fst (on_error e item result warns) = Inl e' \<longleftrightarrow> e' = e \<and> e \<noteq> PermissionError"
  by (auto simp: on_error_def)

lemma append_file_error:
  "append_file name result = Inl e \<Longrightarrow> e = KeyError \<or> e = AttributeError"
  by (auto simp: append_file_def split: option.splits json.splits)

lemma dir_to_json_dir:
  assumes "is_dir node = Inr True"
  shows "dir_to_json path node config d =
     (if depth_limited config d
      then (Inr (JDict empty_result), [])
      else (case sorted_items node of
              Inl e \<Rightarrow> (Inr (JDict empty_result), [path])
            | Inr items \<Rightarrow> for_items path items config d empty_result []))"
  using assms sorted_items_error[OF assms]
  by (auto simp: dir_to_json.simps[of path node] is_dir_True_exists split: sum.splits)

lemma walk_errors:
  "is_dir node = Inr True \<Longrightarrow> fst (dir_to_json path node config d) = Inl e \<Longrightarrow> inner_error e"
  "fst (for_items path items config d result warns) = Inl e \<Longrightarrow> inner_error e"
  "fst (visit path item config d result warns) = Inl e \<Longrightarrow> inner_error e"
proof (induction path node config d and path items config d result warns
    and path item config d result warns arbitrary: e and e and e
    rule: dir_to_json_for_items_visit.induct)
  case (1 path node config current_depth)
  from "1.prems" show ?case
    apply (simp only: dir_to_json_dir[OF "1.prems"(1)])
    apply (auto split: if_splits sum.splits simp: is_dir_True_exists intro: "1.IH")
    done
next
  case (2 path config current_depth result warns)
  then show ?case by simp
next
  case (3 path item rest config current_depth result warns)
  show ?case
  proof (cases "visit path item config current_depth result warns")
    case (Pair r w)
    show ?thesis
    proof (cases r)
      case (Inl e')
      with Pair "3.prems" "3.IH"(1)[of e] show ?thesis by simp
    next
      case (Inr res)
      with Pair "3.prems" "3.IH"(2)[OF Pair[symmetric, unfolded Inr]] show ?thesis by simp
    qed
  qed
next
  case (4 path item config current_depth result warns)
  show ?case
  proof (cases "should_ignore config (fst item)")
    case True
    with "4.prems" show ?thesis by (simp add: visit.simps)
  next
    case False
    note ni = False
    show ?thesis
    proof (cases "is_file (snd item)")
      case (Inl e1)
      then have "e1 = PermissionError" by (cases "snd item") auto
      with Inl ni "4.prems" show ?thesis by (simp add: on_error_def visit.simps)
    next
      case (Inr b)
      show ?thesis
      proof (cases b)
        case True
        with Inr ni "4.prems" show ?thesis
          by (auto simp: visit.simps inner_error_def on_error_Inl split: sum.splits dest: append_file_error)
      next
        case False
        with Inr have nf: "is_file (snd item) = Inr False" by simp
        show ?thesis
        proof (cases "is_dir (snd item)")
          case (Inl e1)
          then have "e1 = PermissionError" by (cases "snd item") auto
          with Inl ni nf "4.prems" show ?thesis by (simp add: on_error_def visit.simps)
        next
          case (Inr b2)
          show ?thesis
          proof (cases b2)
            case False
            with Inr ni nf "4.prems" show ?thesis by (simp add: visit.simps)
          next
            case True
            with Inr have isd: "is_dir (snd item) = Inr True" by simp
            obtain r w where rw: "dir_to_json (path @ [fst item]) (snd item) config (current_depth + 1) = (r, w)"
              by (cases "dir_to_json (path @ [fst item]) (snd item) config (current_depth + 1)")
            show ?thesis
            proof (cases r)
              case (Inl e1)
              have "inner_error e1"
                using "4.IH"[OF ni nf refl isd refl isd, of e1] rw Inl by simp
              with Inl rw ni nf isd "4.prems" show ?thesis
                by (auto simp: on_error_Inl visit.simps)
            next
              case (Inr sub)
              with rw ni nf isd "4.prems" show ?thesis by (simp add: visit.simps)
            qed
          qed
        qed
      qed
    qed
  qed
qed


lemma dir_to_json_not_fatal:
  assumes "is_dir node = Inr True"
  shows "fst (dir_to_json path node config d) \<noteq> Inl DirectoryNotFoundError"
    and "fst (dir_to_json path node config d) \<noteq> Inl TreesonError"
    and "fst (dir_to_json path node config d) \<noteq> Inl PermissionError"
  using walk_errors(1)[OF assms, of path config d] by (auto simp: inner_error_def)

subsection \<open>Fatal errors\<close>

text \<open>
  Claim C8. \<open>dir_to_json\<close> raises \<^verbatim>\<open>DirectoryNotFoundError\<close> if and only if
  \<^verbatim>\<open>path.exists()\<close> is false, and \<^verbatim>\<open>TreesonError\<close> (with the message
  "Path is not a directory") if and only if the path exists and is not a directory.
  The two are different exception classes, and the handler of the loop, which
  catches \<^verbatim>\<open>PermissionError\<close> only, lets both through to the caller.
\<close>

theorem dir_to_json_fatal_errors:
  "(fst (dir_to_json path node config d) = Inl DirectoryNotFoundError
      \<longleftrightarrow> path_exists node = Inr False)
   \<and> (fst (dir_to_json path node config d) = Inl TreesonError
      \<longleftrightarrow> path_exists node = Inr True \<and> is_dir node = Inr False)
   \<and> DirectoryNotFoundError \<noteq> TreesonError
   \<and> fst (on_error DirectoryNotFoundError item result warns) = Inl DirectoryNotFoundError
   \<and> fst (on_error TreesonError item result warns) = Inl TreesonError"
proof (cases "is_dir node = Inr True")
  case True
  then show ?thesis
    using dir_to_json_not_fatal[OF True, of path config d]
    by (simp add: is_dir_True_exists on_error_def)
next
  case False
  then show ?thesis by (cases node) (simp_all add: on_error_def dir_to_json.simps)
qed

theorem dir_to_json_fatal_errors_witness:
  "fst (dir_to_json [''gone''] Missing default_config 0) = Inl DirectoryNotFoundError
   \<and> fst (dir_to_json [''notes.txt''] RegularFile default_config 0) = Inl TreesonError
   \<and> fst (dir_to_json [''src''] (Directory [(''a.py'', RegularFile)]) default_config 0)
       \<noteq> Inl DirectoryNotFoundError"
  using dir_to_json_fatal_errors [of "[''gone'']" Missing default_config 0]
    dir_to_json_fatal_errors [of "[''notes.txt'']" RegularFile default_config 0]
    dir_to_json_fatal_errors [of "[''src'']" "Directory [(''a.py'', RegularFile)]" default_config 0]
  by simp

subsection \<open>Access denied\<close>

text \<open>
  Claim C7 as stated fails: when \<^verbatim>\<open>stat\<close> on the target itself is denied,
  \<^verbatim>\<open>path.exists()\<close> raises \<^verbatim>\<open>PermissionError\<close> outside every handler and
  the exception leaves \<open>dir_to_json\<close>, as its docstring announces.
\<close>

theorem dir_to_json_permission_counterexample:
  "fst (dir_to_json [''target''] Unreachable default_config 0) = Inl PermissionError"
  by (simp add: dir_to_json.simps)

text \<open>
  Claim C7, amended. \<^verbatim>\<open>PermissionError\<close> leaves \<open>dir_to_json\<close> exactly when
  the check of the target itself is denied. When the listing of the target is denied,
  the node is returned as it is (empty \<^verbatim>\<open>"files"\<close>, no subdirectory) after one
  warning that names the target. When the listing of a subdirectory is denied, the
  loop body stores an empty node under its name, one warning names it (none if the
  depth limit stops the call before the listing), and the loop goes on with the
  entries that follow it, from that tree and those warnings.
\<close>

theorem dir_to_json_permission:
  "(fst (dir_to_json path node config d) = Inl PermissionError
      \<longleftrightarrow> path_exists node = Inl PermissionError)
   \<and> (\<not> depth_limited config d \<longrightarrow>
        dir_to_json path LockedDir config d = (Inr (JDict [(''files'', JList [])]), [path]))
   \<and> (\<not> should_ignore config name \<longrightarrow>
        visit path (name, LockedDir) config d result warns =
          (Inr (AList.update name (JDict [(''files'', JList [])]) result),
           warns @ (if depth_limited config (d + 1) then [] else [path @ [name]])))
   \<and> (\<not> should_ignore config name \<longrightarrow>
        for_items path ((name, LockedDir) # rest) config d result warns =
          for_items path rest config d
            (AList.update name (JDict [(''files'', JList [])]) result)
            (warns @ (if depth_limited config (d + 1) then [] else [path @ [name]])))"
proof (intro conjI impI)
  show "fst (dir_to_json path node config d) = Inl PermissionError
      \<longleftrightarrow> path_exists node = Inl PermissionError"
  proof (cases "is_dir node = Inr True")
    case True
    then show ?thesis
      using dir_to_json_not_fatal(3)[OF True, of path config d]
      by (simp add: is_dir_True_exists)
  next
    case False
    then show ?thesis by (cases node) (simp_all add: dir_to_json.simps)
  qed
next
  assume "\<not> depth_limited config d"
  then show "dir_to_json path LockedDir config d = (Inr (JDict [(''files'', JList [])]), [path])"
    by (simp add: dir_to_json.simps depth_limited_def sorted_items_def empty_result_def)
next
  assume "\<not> should_ignore config name"
  then show "visit path (name, LockedDir) config d result warns =
          (Inr (AList.update name (JDict [(''files'', JList [])]) result),
           warns @ (if depth_limited config (d + 1) then [] else [path @ [name]]))"
    by (simp add: visit.simps dir_to_json.simps depth_limited_def sorted_items_def empty_result_def)
next
  assume "\<not> should_ignore config name"
  then have "visit path (name, LockedDir) config d result warns =
          (Inr (AList.update name (JDict [(''files'', JList [])]) result),
           warns @ (if depth_limited config (d + 1) then [] else [path @ [name]]))"
    by (simp add: visit.simps dir_to_json.simps depth_limited_def sorted_items_def empty_result_def)
  then show "for_items path ((name, LockedDir) # rest) config d result warns =
          for_items path rest config d
            (AList.update name (JDict [(''files'', JList [])]) result)
            (warns @ (if depth_limited config (d + 1) then [] else [path @ [name]]))"
    by simp
qed

lemma locked_sibling_example:
  "dir_to_json [''proj'']
     (Directory [(''a'', RegularFile), (''zeta'', Directory [(''z.txt'', RegularFile)]),
                 (''vault'', LockedDir)]) default_config 0
   = for_items [''proj'']
       [(''vault'', LockedDir), (''zeta'', Directory [(''z.txt'', RegularFile)]), (''a'', RegularFile)]
       default_config 0 [(''files'', JList [])] []"
  by (simp add: dir_to_json.simps depth_limited_def default_config_def sorted_items_def
      sorted_py_def sort_key_of_def lower_def lower_char_def empty_result_def)

lemma locked_sibling_rest:
  "for_items [''proj'']
       [(''zeta'', Directory [(''z.txt'', RegularFile)]), (''a'', RegularFile)]
       default_config 0 [(''files'', JList []), (''vault'', JDict [(''files'', JList [])])]
       [[''proj'', ''vault'']]
   = (Inr (JDict [(''files'', JList [''a'']), (''vault'', JDict [(''files'', JList [])]),
                  (''zeta'', JDict [(''files'', JList [''z.txt''])])]),
      [[''proj'', ''vault'']])"
  by (simp add: visit.simps dir_to_json.simps depth_limited_def default_config_def sorted_items_def
      sorted_py_def sort_key_of_def lower_def lower_char_def empty_result_def
      should_ignore_def DEFAULT_IGNORES_def append_file_def)

theorem dir_to_json_permission_witness:
  "dir_to_json [''proj''] LockedDir default_config 0 = (Inr (JDict [(''files'', JList [])]), [[''proj'']])
   \<and> visit [''proj''] (''vault'', LockedDir) default_config 0 [(''files'', JList [])] []
       = (Inr [(''files'', JList []), (''vault'', JDict [(''files'', JList [])])],
          [[''proj'', ''vault'']])
   \<and> dir_to_json [''proj'']
       (Directory [(''a'', RegularFile), (''zeta'', Directory [(''z.txt'', RegularFile)]),
                   (''vault'', LockedDir)]) default_config 0
       = (Inr (JDict [(''files'', JList [''a'']), (''vault'', JDict [(''files'', JList [])]),
                      (''zeta'', JDict [(''files'', JList [''z.txt''])])]),
          [[''proj'', ''vault'']])
   \<and> fst (dir_to_json [''proj''] (Directory [(''vault'', LockedDir)]) default_config 0)
       \<noteq> Inl PermissionError"
  using dir_to_json_permission [where path = "[''proj'']" and node = LockedDir
      and config = default_config and d = 0 and name = "''vault''"
      and result = "[(''files'', JList [])]" and warns = "[]"
      and rest = "[(''zeta'', Directory [(''z.txt'', RegularFile)]), (''a'', RegularFile)]"]
    dir_to_json_permission [where path = "[''proj'']" and node = "Directory [(''vault'', LockedDir)]"
      and config = default_config and d = 0 and name = "''vault''"
      and result = "[(''files'', JList [])]" and warns = "[]" and rest = "[]"]
    locked_sibling_example locked_sibling_rest
  by (simp add: depth_limited_def default_config_def should_ignore_def DEFAULT_IGNORES_def)

text \<open>
  The sort key calls \<^verbatim>\<open>is_dir\<close> on every entry inside the \<^verbatim>\<open>try\<close> of the
  listing. An entry whose \<^verbatim>\<open>stat\<close> is denied therefore ends the listing: the
  directory is returned empty, with a warning that names the directory, and its
  other entries are not visited.
\<close>

lemma is_dir_Inl: "is_dir n = Inl e \<Longrightarrow> e = PermissionError"
  by (cases n) auto

lemma keys_of_unreachable:
  "(name, Unreachable) \<in> set cs \<Longrightarrow> keys_of sort_key_of cs = Inl PermissionError"
  by (induction cs) (auto simp: sort_key_of_def split: sum.splits dest: keys_of_error is_dir_Inl)

lemma unreachable_entry_empties_listing:
  assumes "(name, Unreachable) \<in> set cs" and "\<not> depth_limited config d"
  shows "dir_to_json path (Directory cs) config d = (Inr (JDict [(''files'', JList [])]), [path])"
  using assms(2) keys_of_unreachable[OF assms(1)]
  by (simp add: dir_to_json.simps depth_limited_def sorted_items_def sorted_py_def empty_result_def)

subsection \<open>Names in the tree of a flat listing\<close>

lemma names_of_JDict: "names_of (JDict kvs) = (\<Union>p \<in> set kvs. entry_names p)"
  by (simp add: entry_names_def)

lemma set_update_subset: "set (AList.update k v al) \<subseteq> insert (k, v) (set al)"
  by (induction al) auto

lemma names_of_update:
  "names_of (JDict (AList.update k v kvs)) \<subseteq> names_of (JDict kvs) \<union> entry_names (k, v)"
  using set_update_subset[of k v kvs] unfolding names_of_JDict by blast

lemma names_of_lookup:
  "map_of kvs k = Some v \<Longrightarrow> names_of v \<subseteq> names_of (JDict kvs)"
proof -
  assume "map_of kvs k = Some v"
  then have "(k, v) \<in> set kvs" by (rule map_of_SomeD)
  then have "entry_names (k, v) \<subseteq> names_of (JDict kvs)"
    unfolding names_of_JDict by blast
  moreover have "names_of v \<subseteq> entry_names (k, v)"
    by (cases v) (auto simp: entry_names_def)
  ultimately show ?thesis by blast
qed

lemma setdefault_names:
  "setdefault k v c = Inr c' \<Longrightarrow> names_of c' \<subseteq> names_of c \<union> entry_names (k, v)"
  using names_of_update[of k v]
  by (cases c) (auto simp: setdefault_def split: if_splits simp del: names_of.simps)

lemma py_getitem_names: "py_getitem k c = Inr v \<Longrightarrow> names_of v \<subseteq> names_of c"
  by (cases c) (auto split: option.splits dest: names_of_lookup simp del: names_of.simps)

lemma py_setitem_names:
  "py_setitem k v c = Inr c' \<Longrightarrow> names_of c' \<subseteq> names_of c \<union> entry_names (k, v)"
  using names_of_update[of k v]
  by (cases c) (auto simp del: names_of.simps)

lemma add_final_names:
  assumes "add_final final_part ty current = Inr c'"
  shows "names_of c' \<subseteq> names_of current \<union> {final_part}"
proof (cases "ty = ''blob''")
  case True
  from assms True obtain c fs fs' where
      1: "setdefault ''files'' (JList []) current = Inr c"
    and 2: "py_getitem ''files'' c = Inr fs"
    and 3: "py_append final_part fs = Inr fs'"
    and 4: "py_setitem ''files'' fs' c = Inr c'"
    by (auto simp: add_final_def split: sum.splits)
  from 3 obtain xs where fs: "fs = JList xs" "fs' = JList (xs @ [final_part])"
    by (cases fs) auto
  from setdefault_names[OF 1] have a: "names_of c \<subseteq> names_of current"
    by (simp add: entry_names_def)
  from py_getitem_names[OF 2] fs have b: "set xs \<subseteq> names_of c" by simp
  from py_setitem_names[OF 4] fs have "names_of c' \<subseteq> names_of c \<union> set xs \<union> {final_part}"
    by (auto simp: entry_names_def)
  with a b show ?thesis by blast
next
  case False
  with assms setdefault_names[of final_part "JDict empty_result" current c'] show ?thesis
    by (auto simp: add_final_def entry_names_def empty_result_def split: if_splits)
qed

lemma add_path_names:
  "add_path parts ty current = Inr c' \<Longrightarrow> names_of c' \<subseteq> names_of current \<union> set parts"
proof (induction parts ty current arbitrary: c' rule: add_path.induct)
  case (1 ty current)
  then show ?case by simp
next
  case (2 final_part ty current)
  then show ?case using add_final_names by fastforce
next
  case (3 part v va ty current)
  from "3.prems" obtain c child child' where
      a: "setdefault part (JDict empty_result) current = Inr c"
    and b: "py_getitem part c = Inr child"
    and r: "add_path (v # va) ty child = Inr child'"
    and w: "py_setitem part child' c = Inr c'"
    by (auto split: sum.splits)
  from setdefault_names[OF a] have 1: "names_of c \<subseteq> names_of current \<union> {part}"
    by (simp add: entry_names_def empty_result_def)
  from py_getitem_names[OF b] have 2: "names_of child \<subseteq> names_of c" .
  from "3.IH"[OF a b r] have 3: "names_of child' \<subseteq> names_of child \<union> set (v # va)" .
  have "entry_names (part, child') \<subseteq> insert part (names_of child')"
    by (cases child') (auto simp: entry_names_def)
  with py_setitem_names[OF w] have 4: "names_of c' \<subseteq> names_of c \<union> insert part (names_of child')"
    by blast
  from 1 2 3 4 show ?case by auto
qed

lemma build_tree_names:
  assumes "build_tree config tree root = Inr out"
    and "\<forall>n \<in> names_of root. \<not> should_ignore config n"
  shows "\<forall>n \<in> names_of out. \<not> should_ignore config n"
  using assms
proof (induction tree arbitrary: root)
  case Nil
  then show ?case by simp
next
  case (Cons node tree)
  show ?case
  proof (cases "list_ex (should_ignore config) (split_slash (entry_path node))")
    case True
    with Cons show ?thesis by simp
  next
    case False
    with Cons.prems(1) obtain root' where
        a: "add_path (split_slash (entry_path node)) (entry_type node) root = Inr root'"
      and b: "build_tree config tree root' = Inr out"
      by (auto simp: Let_def split: sum.splits)
    from False have "\<forall>n \<in> set (split_slash (entry_path node)). \<not> should_ignore config n"
      by (simp add: list_ex_iff)
    with add_path_names[OF a] Cons.prems(2) have "\<forall>n \<in> names_of root'. \<not> should_ignore config n"
      by blast
    with Cons.IH[OF b] show ?thesis .
  qed
qed


lemma should_ignore_ignores: "n \<in> ignores config \<Longrightarrow> should_ignore config n"
  by (simp add: should_ignore_def)

text \<open>
  Claim C5. An entry with a path segment that the ignore predicate matches is dropped
  whole: the loop goes on from the same tree. Hence no name of the tree that
  \<open>github_repo_to_json\<close> returns is matched by the predicate, whether it is a file
  name or the key of a directory at any depth; in particular no such name is one of
  the configured ignore patterns.
\<close>

theorem builder_discards_ignored:
  "(list_ex (should_ignore config) (split_slash (entry_path node)) \<longrightarrow>
      build_tree config (node # tree) root = build_tree config tree root)
   \<and> (github_repo_to_json config (Inr tree) = Inr out \<longrightarrow>
      (\<forall>n \<in> names_of out. \<not> should_ignore config n \<and> n \<notin> ignores config))"
proof (intro conjI impI)
  assume "list_ex (should_ignore config) (split_slash (entry_path node))"
  then show "build_tree config (node # tree) root = build_tree config tree root"
    by simp
next
  assume "github_repo_to_json config (Inr tree) = Inr out"
  then have "build_tree config tree (JDict []) = Inr out"
    by (simp add: github_repo_to_json_def)
  then have "\<forall>n \<in> names_of out. \<not> should_ignore config n"
    by (rule build_tree_names) simp
  then show "\<forall>n \<in> names_of out. \<not> should_ignore config n \<and> n \<notin> ignores config"
    using should_ignore_ignores by blast
qed

lemma builder_example:
  "github_repo_to_json default_config
     (Inr [\<lparr>entry_path = ''a/b/c.txt'', entry_type = ''blob''\<rparr>,
           \<lparr>entry_path = ''a/node_modules/m.js'', entry_type = ''blob''\<rparr>,
           \<lparr>entry_path = ''.git'', entry_type = ''tree''\<rparr>])
   = Inr (JDict [(''a'', JDict [(''files'', JList []),
                                (''b'', JDict [(''files'', JList [''c.txt''])])])])"
  by (simp add: github_repo_to_json_def default_config_def should_ignore_def DEFAULT_IGNORES_def
      add_final_def setdefault_def empty_result_def)

theorem builder_discards_ignored_witness:
  "build_tree default_config
     [\<lparr>entry_path = ''a/node_modules/m.js'', entry_type = ''blob''\<rparr>,
      \<lparr>entry_path = ''.git'', entry_type = ''tree''\<rparr>] (JDict [])
   = build_tree default_config [\<lparr>entry_path = ''.git'', entry_type = ''tree''\<rparr>] (JDict [])
   \<and> ''node_modules'' \<notin> names_of
       (JDict [(''a'', JDict [(''files'', JList []),
                              (''b'', JDict [(''files'', JList [''c.txt''])])])])"
  using builder_discards_ignored [where config = default_config
      and node = "\<lparr>entry_path = ''a/node_modules/m.js'', entry_type = ''blob''\<rparr>"
      and tree = "[\<lparr>entry_path = ''.git'', entry_type = ''tree''\<rparr>]" and root = "JDict []"]
    builder_discards_ignored [where config = default_config
      and tree = "[\<lparr>entry_path = ''a/b/c.txt'', entry_type = ''blob''\<rparr>,
           \<lparr>entry_path = ''a/node_modules/m.js'', entry_type = ''blob''\<rparr>,
           \<lparr>entry_path = ''.git'', entry_type = ''tree''\<rparr>]"
      and out = "JDict [(''a'', JDict [(''files'', JList []),
                              (''b'', JDict [(''files'', JList [''c.txt''])])])]"]
    builder_example
  by (simp add: default_config_def should_ignore_def DEFAULT_IGNORES_def)

subsection \<open>An explicit directory entry of a flat listing\<close>

lemma split_slash_not_Nil: "split_slash s \<noteq> []"
  by (induction s) (auto split: list.splits)

lemma update_absent: "map_of kvs k = None \<Longrightarrow> AList.update k v kvs = kvs @ [(k, v)]"
  by (induction kvs) (auto split: if_splits)

lemma add_path_tree_existing:
  assumes "ty = ''tree''" and "parts \<noteq> []" and "node_at parts root \<noteq> None"
  shows "add_path parts ty root = Inr root"
  using assms
proof (induction parts ty root rule: add_path.induct)
  case (1 ty current)
  then show ?case by simp
next
  case (2 final_part ty current)
  then show ?case
    by (cases current) (auto simp: add_final_def setdefault_def split: option.splits)
next
  case (3 part v va ty current)
  from "3.prems"(3) obtain kvs child where
      c: "current = JDict kvs" and m: "map_of kvs part = Some child"
    and n: "node_at (v # va) child \<noteq> None"
    by (cases current) (auto split: option.splits)
  have s: "setdefault part (JDict empty_result) current = Inr current"
    using c m by (simp add: setdefault_def)
  have g: "py_getitem part current = Inr child"
    using c m by simp
  have "add_path (v # va) ty child = Inr child"
    using "3.IH"[OF s g "3.prems"(1) _ n] by simp
  with s g c m show ?case
    by (simp add: update_triv)
qed

text \<open>
  Claim C6. A \<^verbatim>\<open>tree\<close> entry whose path leads to a node that is already in the tree
  changes nothing: the loop goes on from the same tree, with everything that earlier
  entries put under that node. Where the parent has no such key, the entry adds an
  empty node after the keys that are there. The listing
  \<^verbatim>\<open>src/main.go\<close> (blob), \<^verbatim>\<open>src\<close> (tree) gives
  \<^verbatim>\<open>{"src": {"files": ["main.go"]}}\<close>.
\<close>

theorem tree_entry_keeps_node:
  "(entry_type e = ''tree'' \<and> node_at (split_slash (entry_path e)) root \<noteq> None \<longrightarrow>
      build_tree config (e # es) root = build_tree config es root)
   \<and> (parts \<noteq> [] \<and> node_at parts root \<noteq> None \<longrightarrow> add_path parts ''tree'' root = Inr root)
   \<and> (map_of kvs name = None \<longrightarrow>
        add_path [name] ''tree'' (JDict kvs) = Inr (JDict (kvs @ [(name, JDict [(''files'', JList [])])])))
   \<and> github_repo_to_json default_config
        (Inr [\<lparr>entry_path = ''src/main.go'', entry_type = ''blob''\<rparr>,
              \<lparr>entry_path = ''src'', entry_type = ''tree''\<rparr>])
      = Inr (JDict [(''src'', JDict [(''files'', JList [''main.go''])])])"
proof (intro conjI impI)
  assume a: "entry_type e = ''tree'' \<and> node_at (split_slash (entry_path e)) root \<noteq> None"
  then have "add_path (split_slash (entry_path e)) (entry_type e) root = Inr root"
    using add_path_tree_existing[of "entry_type e" "split_slash (entry_path e)" root]
      split_slash_not_Nil[of "entry_path e"] by simp
  then show "build_tree config (e # es) root = build_tree config es root"
    by (simp add: Let_def)
next
  assume "parts \<noteq> [] \<and> node_at parts root \<noteq> None"
  then show "add_path parts ''tree'' root = Inr root"
    using add_path_tree_existing[of "''tree''" parts root] by simp
next
  assume "map_of kvs name = None"
  then show "add_path [name] ''tree'' (JDict kvs)
      = Inr (JDict (kvs @ [(name, JDict [(''files'', JList [])])]))"
    by (simp add: add_final_def setdefault_def update_absent empty_result_def)
next
  show "github_repo_to_json default_config
        (Inr [\<lparr>entry_path = ''src/main.go'', entry_type = ''blob''\<rparr>,
              \<lparr>entry_path = ''src'', entry_type = ''tree''\<rparr>])
      = Inr (JDict [(''src'', JDict [(''files'', JList [''main.go''])])])"
    by (simp add: github_repo_to_json_def default_config_def should_ignore_def DEFAULT_IGNORES_def
        add_final_def setdefault_def empty_result_def)
qed

theorem tree_entry_keeps_node_witness:
  "build_tree default_config [\<lparr>entry_path = ''src'', entry_type = ''tree''\<rparr>]
       (JDict [(''src'', JDict [(''files'', JList [''main.go''])])])
     = Inr (JDict [(''src'', JDict [(''files'', JList [''main.go''])])])
   \<and> add_path [''src'', ''lib''] ''tree''
       (JDict [(''src'', JDict [(''files'', JList [''main.go'']), (''lib'', JDict [(''files'', JList [''a.go''])])])])
     = Inr (JDict [(''src'', JDict [(''files'', JList [''main.go'']), (''lib'', JDict [(''files'', JList [''a.go''])])])])
   \<and> add_path [''docs''] ''tree'' (JDict [(''src'', JDict [(''files'', JList [''main.go''])])])
     = Inr (JDict [(''src'', JDict [(''files'', JList [''main.go''])]),
                   (''docs'', JDict [(''files'', JList [])])])"
  using tree_entry_keeps_node [where e = "\<lparr>entry_path = ''src'', entry_type = ''tree''\<rparr>"
      and es = "[]" and config = default_config
      and root = "JDict [(''src'', JDict [(''files'', JList [''main.go''])])]"
      and parts = "[''src'']" and kvs = "[(''src'', JDict [(''files'', JList [''main.go''])])]"
      and name = "''docs''"]
    tree_entry_keeps_node [where e = "\<lparr>entry_path = ''src'', entry_type = ''tree''\<rparr>"
      and es = "[]" and config = default_config
      and root = "JDict [(''src'', JDict [(''files'', JList [''main.go'']), (''lib'', JDict [(''files'', JList [''a.go''])])])]"
      and parts = "[''src'', ''lib'']" and kvs = "[]" and name = "''docs''"]
  by simp

subsection \<open>The key \<^verbatim>\<open>"files"\<close> of the root\<close>

lemma visit_Inr_cases:
  assumes "visit path item config d result warns = (Inr r, w)"
  shows "r = result
       \<or> (\<exists>fs. map_of result ''files'' = Some (JList fs)
              \<and> r = AList.update ''files'' (JList (fs @ [fst item])) result)
       \<or> (\<exists>sub. r = AList.update (fst item) sub result)"
  using assms
  by (auto simp: visit.simps on_error_def append_file_def
      split: if_splits sum.splits bool.splits prod.splits option.splits json.splits)

lemma visit_keeps_files:
  assumes "visit path item config d result warns = (Inr r, w)"
    and "map_of result ''files'' \<noteq> None"
  shows "map_of r ''files'' \<noteq> None"
  using visit_Inr_cases[OF assms(1)] assms(2)
  by (auto simp: update_conv')

lemma for_items_files_key:
  "fst (for_items path items config d result warns) = Inr out \<Longrightarrow> map_of result ''files'' \<noteq> None
    \<Longrightarrow> \<exists>kvs. out = JDict kvs \<and> map_of kvs ''files'' \<noteq> None"
proof (induction items arbitrary: result warns)
  case Nil
  then show ?case by auto
next
  case (Cons item rest)
  obtain r w where v: "visit path item config d result warns = (r, w)"
    by (cases "visit path item config d result warns")
  show ?case
  proof (cases r)
    case (Inl e)
    with v Cons.prems show ?thesis by simp
  next
    case (Inr r')
    with v Cons.prems(1) have "fst (for_items path rest config d r' w) = Inr out" by simp
    moreover have "map_of r' ''files'' \<noteq> None"
      using visit_keeps_files[OF v[unfolded Inr] Cons.prems(2)] .
    ultimately show ?thesis by (rule Cons.IH)
  qed
qed

lemma dir_to_json_files_key:
  assumes "fst (dir_to_json path node config d) = Inr out"
  shows "\<exists>kvs. out = JDict kvs \<and> map_of kvs ''files'' \<noteq> None"
proof -
  have e: "map_of empty_result ''files'' \<noteq> None" by (simp add: empty_result_def)
  from assms show ?thesis
    using for_items_files_key[OF _ e, of path _ config d "[]" out]
    by (auto simp: dir_to_json.simps empty_result_def
        split: sum.splits bool.splits if_splits)
qed

lemma add_path_keeps_keys:
  assumes "add_path parts ty (JDict kvs) = Inr c"
  shows "\<exists>kvs'. c = JDict kvs' \<and> (\<forall>k. map_of kvs k \<noteq> None \<longrightarrow> map_of kvs' k \<noteq> None)"
proof (cases parts)
  case Nil
  with assms show ?thesis by simp
next
  case (Cons p ps)
  show ?thesis
  proof (cases ps)
    case Nil
    with Cons assms show ?thesis
      by (auto simp: add_final_def setdefault_def update_conv'
          split: if_splits sum.splits option.splits)
  next
    case (Cons q qs)
    with \<open>parts = p # ps\<close> assms show ?thesis
      by (auto simp: setdefault_def update_conv' split: if_splits sum.splits option.splits)
  qed
qed

lemma add_path_blob_files:
  assumes "add_path [name] ''blob'' (JDict kvs) = Inr c"
  shows "\<exists>kvs'. c = JDict kvs' \<and> map_of kvs' ''files'' \<noteq> None"
  using assms
  by (auto simp: add_final_def setdefault_def update_conv'
      split: if_splits sum.splits option.splits)

lemma build_tree_keeps_keys:
  "build_tree config tree (JDict kvs) = Inr out \<Longrightarrow> map_of kvs k \<noteq> None
    \<Longrightarrow> \<exists>kvs'. out = JDict kvs' \<and> map_of kvs' k \<noteq> None"
proof (induction tree arbitrary: kvs)
  case Nil
  then show ?case by auto
next
  case (Cons e es)
  show ?case
  proof (cases "list_ex (should_ignore config) (split_slash (entry_path e))")
    case True
    with Cons show ?thesis by simp
  next
    case False
    with Cons.prems(1) obtain root' where
        a: "add_path (split_slash (entry_path e)) (entry_type e) (JDict kvs) = Inr root'"
      and b: "build_tree config es root' = Inr out"
      by (auto simp: Let_def split: sum.splits)
    from add_path_keeps_keys[OF a] Cons.prems(2) obtain kvs' where
        "root' = JDict kvs'" "map_of kvs' k \<noteq> None" by blast
    with b Cons.IH show ?thesis by blast
  qed
qed

lemma build_tree_top_blob:
  "build_tree config tree (JDict kvs) = Inr out \<Longrightarrow> e \<in> set tree \<Longrightarrow> entry_type e = ''blob''
    \<Longrightarrow> split_slash (entry_path e) = [name] \<Longrightarrow> \<not> should_ignore config name
    \<Longrightarrow> \<exists>kvs'. out = JDict kvs' \<and> map_of kvs' ''files'' \<noteq> None"
proof (induction tree arbitrary: kvs)
  case Nil
  then show ?case by simp
next
  case (Cons x xs)
  show ?case
  proof (cases "x = e")
    case True
    with Cons.prems obtain root' where
        a: "add_path [name] ''blob'' (JDict kvs) = Inr root'"
      and b: "build_tree config xs root' = Inr out"
      by (auto simp: Let_def split: sum.splits)
    from add_path_blob_files[OF a] obtain kvs' where
        "root' = JDict kvs'" "map_of kvs' ''files'' \<noteq> None" by blast
    with b build_tree_keeps_keys show ?thesis by blast
  next
    case False
    with Cons.prems(2) have in_xs: "e \<in> set xs" by simp
    show ?thesis
    proof (cases "list_ex (should_ignore config) (split_slash (entry_path x))")
      case True
      with Cons.prems(1) have "build_tree config xs (JDict kvs) = Inr out" by simp
      from Cons.IH[OF this in_xs Cons.prems(3,4,5)] show ?thesis .
    next
      case False
      with Cons.prems(1) obtain root' where
          a: "add_path (split_slash (entry_path x)) (entry_type x) (JDict kvs) = Inr root'"
        and b: "build_tree config xs root' = Inr out"
        by (auto simp: Let_def split: sum.splits)
      from add_path_keeps_keys[OF a] obtain kvs' where r: "root' = JDict kvs'" by blast
      from Cons.IH[OF b[unfolded r] in_xs Cons.prems(3,4,5)] show ?thesis .
    qed
  qed
qed

lemma build_tree_all_discarded:
  "list_all (\<lambda>e. list_ex (should_ignore config) (split_slash (entry_path e))) tree
    \<Longrightarrow> build_tree config tree root = Inr root"
  by (induction tree) simp_all

text \<open>
  Claim C3 as stated fails for \<open>github_repo_to_json\<close>: it starts from the empty dict
  and adds \<^verbatim>\<open>"files"\<close> only when it appends a file name, so an empty listing gives
  \<^verbatim>\<open>{}\<close>, while \<open>dir_to_json\<close> on an empty directory gives \<^verbatim>\<open>{"files": []}\<close>.
\<close>

theorem root_files_key_counterexample:
  "github_repo_to_json default_config (Inr []) = Inr (JDict [])
   \<and> \<not> py_contains ''files'' (JDict [])
   \<and> dir_to_json [''target''] (Directory []) default_config 0 = (Inr (JDict [(''files'', JList [])]), [])"
  by (simp add: github_repo_to_json_def dir_to_json.simps depth_limited_def default_config_def
      sorted_items_def sorted_py_def empty_result_def)

text \<open>
  Claim C3, amended. Whenever \<open>dir_to_json\<close> returns, the root is a dict with the key
  \<^verbatim>\<open>"files"\<close>. The root of \<open>github_repo_to_json\<close> is the empty dict, without the
  key, when every entry of the listing is discarded by the ignore filter (an empty
  listing included); it has the key whenever the listing has a top-level blob entry
  that is not discarded.
\<close>

theorem root_files_key:
  "(fst (dir_to_json path node config d) = Inr out \<longrightarrow>
      (\<exists>kvs. out = JDict kvs \<and> map_of kvs ''files'' \<noteq> None))
   \<and> (list_all (\<lambda>e. list_ex (should_ignore config) (split_slash (entry_path e))) tree \<longrightarrow>
        github_repo_to_json config (Inr tree) = Inr (JDict []))
   \<and> (github_repo_to_json config (Inr tree) = Inr out' \<and> e \<in> set tree \<and> entry_type e = ''blob''
        \<and> split_slash (entry_path e) = [name] \<and> \<not> should_ignore config name \<longrightarrow>
        (\<exists>kvs. out' = JDict kvs \<and> map_of kvs ''files'' \<noteq> None))"
proof (intro conjI impI)
  assume "fst (dir_to_json path node config d) = Inr out"
  then show "\<exists>kvs. out = JDict kvs \<and> map_of kvs ''files'' \<noteq> None"
    by (rule dir_to_json_files_key)
next
  assume "list_all (\<lambda>e. list_ex (should_ignore config) (split_slash (entry_path e))) tree"
  then show "github_repo_to_json config (Inr tree) = Inr (JDict [])"
    by (simp add: github_repo_to_json_def build_tree_all_discarded)
next
  assume a: "github_repo_to_json config (Inr tree) = Inr out' \<and> e \<in> set tree \<and> entry_type e = ''blob''
        \<and> split_slash (entry_path e) = [name] \<and> \<not> should_ignore config name"
  then have "build_tree config tree (JDict []) = Inr out'"
    by (simp add: github_repo_to_json_def)
  with a show "\<exists>kvs. out' = JDict kvs \<and> map_of kvs ''files'' \<noteq> None"
    using build_tree_top_blob[of config tree "[]" out' e name] by blast
qed

lemma root_files_key_example:
  "dir_to_json [''proj''] (Directory [(''.git'', Directory []), (''node_modules'', Directory [])])
       default_config 0 = (Inr (JDict [(''files'', JList [])]), [])
   \<and> github_repo_to_json default_config
       (Inr [\<lparr>entry_path = ''src/main.go'', entry_type = ''blob''\<rparr>,
             \<lparr>entry_path = ''README.md'', entry_type = ''blob''\<rparr>])
     = Inr (JDict [(''src'', JDict [(''files'', JList [''main.go''])]),
                   (''files'', JList [''README.md''])])"
  by (simp add: github_repo_to_json_def dir_to_json.simps visit.simps depth_limited_def
      default_config_def sorted_items_def sorted_py_def sort_key_of_def lower_def lower_char_def
      empty_result_def should_ignore_def DEFAULT_IGNORES_def add_final_def setdefault_def)

theorem root_files_key_witness:
  "map_of [(''files'', JList [])] ''files'' \<noteq> None
   \<and> github_repo_to_json default_config
       (Inr [\<lparr>entry_path = ''.git/config'', entry_type = ''blob''\<rparr>,
             \<lparr>entry_path = ''node_modules'', entry_type = ''tree''\<rparr>]) = Inr (JDict [])
   \<and> map_of [(''src'', JDict [(''files'', JList [''main.go''])]),
              (''files'', JList [''README.md''])] ''files'' \<noteq> None"
  using root_files_key [where path = "[''proj'']"
      and node = "Directory [(''.git'', Directory []), (''node_modules'', Directory [])]"
      and config = default_config and d = 0 and out = "JDict [(''files'', JList [])]"
      and tree = "[\<lparr>entry_path = ''.git/config'', entry_type = ''blob''\<rparr>,
             \<lparr>entry_path = ''node_modules'', entry_type = ''tree''\<rparr>]"]
    root_files_key [where config = default_config
      and tree = "[\<lparr>entry_path = ''src/main.go'', entry_type = ''blob''\<rparr>,
             \<lparr>entry_path = ''README.md'', entry_type = ''blob''\<rparr>]"
      and out' = "JDict [(''src'', JDict [(''files'', JList [''main.go''])]),
                   (''files'', JList [''README.md''])]"
      and e = "\<lparr>entry_path = ''README.md'', entry_type = ''blob''\<rparr>"
      and name = "''README.md''"]
    root_files_key_example
  by (simp add: default_config_def should_ignore_def DEFAULT_IGNORES_def)

subsection \<open>The sorted listing as a sort by a total key\<close>

lemma sort_key_of_eq:
  "sort_key_of x = (if snd x = Unreachable then Inl PermissionError else Inr (item_key x))"
  by (cases "snd x") (simp_all add: sort_key_of_def item_key_def)

lemma keys_of_sort_key_of:
  "keys_of sort_key_of xs =
     (if \<exists>x \<in> set xs. snd x = Unreachable then Inl PermissionError else Inr (map item_key xs))"
  by (induction xs) (auto simp: sort_key_of_eq)

lemma zip_map_decorated: "\<forall>p \<in> set (zip (map f xs) xs). fst p = f (snd p)"
  by (induction xs) auto

lemma insort_key_decorated:
  "\<forall>p \<in> set ps. fst p = f (snd p)
    \<Longrightarrow> map snd (insort_key fst (f x, x) ps) = insort_key f x (map snd ps)"
  by (induction ps) auto

lemma sort_key_decorated: "map snd (sort_key fst (zip (map f xs) xs)) = sort_key f xs"
proof (induction xs)
  case Nil
  then show ?case by simp
next
  case (Cons x xs)
  have "\<forall>p \<in> set (sort_key fst (zip (map f xs) xs)). fst p = f (snd p)"
    using zip_map_decorated[of f xs] by simp
  then show ?case
    using Cons by (simp add: insort_key_decorated)
qed

lemma sorted_py_sort_key_of:
  "sorted_py sort_key_of xs =
     (if \<exists>x \<in> set xs. snd x = Unreachable then Inl PermissionError
      else Inr (sort_key item_key xs))"
  by (simp add: sorted_py_def keys_of_sort_key_of sort_key_decorated)

subsection \<open>Entries that are neither files nor directories\<close>

lemma visit_neither:
  "neither item \<Longrightarrow> visit path item config d result warns = (Inr result, warns)"
  by (auto simp: neither_def visit.simps)

lemma for_items_filter_neither:
  "for_items path (filter (\<lambda>x. \<not> neither x) items) config d result warns
     = for_items path items config d result warns"
  by (induction items arbitrary: result warns)
    (auto simp: visit_neither split: prod.splits sum.splits)

lemma sorted_items_filter_neither:
  "sorted_items (Directory (filter (\<lambda>x. \<not> neither x) cs))
     = (case sorted_items (Directory cs) of
          Inl e \<Rightarrow> Inl e
        | Inr items \<Rightarrow> Inr (filter (\<lambda>x. \<not> neither x) items))"
proof -
  have "(\<exists>x \<in> set (filter (\<lambda>x. \<not> neither x) cs). snd x = Unreachable)
      \<longleftrightarrow> (\<exists>x \<in> set cs. snd x = Unreachable)"
    by (force simp: neither_def)
  then show ?thesis
    by (simp add: sorted_items_def sorted_py_sort_key_of filter_sort)
qed

text \<open>
  Claim C10. An entry of a directory that is neither a regular file nor a directory (a
  socket, a FIFO, a device, a link to nothing) leaves no trace: the loop body returns
  the tree and the warnings it was given, and the result and the warnings of
  \<open>dir_to_json\<close> on a directory are those for the directory without such entries.
\<close>

theorem dir_to_json_omits_neither:
  "(neither item \<longrightarrow> visit path item config d result warns = (Inr result, warns))
   \<and> dir_to_json path (Directory cs) config d
       = dir_to_json path (Directory (filter (\<lambda>x. \<not> neither x) cs)) config d"
proof (intro conjI impI)
  assume "neither item"
  then show "visit path item config d result warns = (Inr result, warns)"
    by (rule visit_neither)
next
  show "dir_to_json path (Directory cs) config d
       = dir_to_json path (Directory (filter (\<lambda>x. \<not> neither x) cs)) config d"
    by (simp add: dir_to_json_dir sorted_items_filter_neither for_items_filter_neither
        split: sum.splits)
qed

lemma omits_neither_example:
  "dir_to_json [''run'']
     (Directory [(''app.sock'', Special), (''a.txt'', RegularFile), (''gone'', Missing),
                 (''log'', Directory [(''pipe'', Special)])]) default_config 0
   = dir_to_json [''run'']
     (Directory [(''a.txt'', RegularFile), (''log'', Directory [(''pipe'', Special)])])
     default_config 0"
  "dir_to_json [''run'']
     (Directory [(''a.txt'', RegularFile), (''log'', Directory [(''pipe'', Special)])])
     default_config 0
   = (Inr (JDict [(''files'', JList [''a.txt'']), (''log'', JDict [(''files'', JList [])])]), [])"
  by (simp_all add: dir_to_json.simps visit.simps depth_limited_def
      default_config_def sorted_items_def sorted_py_def sort_key_of_def lower_def lower_char_def
      empty_result_def should_ignore_def DEFAULT_IGNORES_def append_file_def)

theorem dir_to_json_omits_neither_witness:
  "visit [''run''] (''app.sock'', Special) default_config 0 [(''files'', JList [''a.txt''])] []
     = (Inr [(''files'', JList [''a.txt''])], [])
   \<and> dir_to_json [''run'']
       (Directory [(''app.sock'', Special), (''a.txt'', RegularFile), (''gone'', Missing),
                   (''log'', Directory [(''pipe'', Special)])]) default_config 0
     = (Inr (JDict [(''files'', JList [''a.txt'']), (''log'', JDict [(''files'', JList [])])]), [])"
  using dir_to_json_omits_neither [where item = "(''app.sock'', Special)" and path = "[''run'']"
      and config = default_config and d = 0 and result = "[(''files'', JList [''a.txt''])]"
      and warns = "[]"
      and cs = "[(''app.sock'', Special), (''a.txt'', RegularFile), (''gone'', Missing),
                 (''log'', Directory [(''pipe'', Special)])]"]
    omits_neither_example(2)
  by (simp add: neither_def)

subsection \<open>The order of the entries\<close>



lemma sorted_items_readable:
  assumes "list_all (\<lambda>x. snd x \<noteq> Unreachable) cs"
  shows "sorted_items (Directory cs) = Inr (sort_key item_key cs)"
  using assms by (auto simp: sorted_items_def sorted_py_sort_key_of list_all_iff)



lemma char_eq_char_of_iff: "c = char_of n \<longleftrightarrow> (of_char c :: nat) = take_bit 8 n"
  using char_of_eq_iff[of n c] by auto

lemmas char_eval = char_of_eq_iff char_eq_char_of_iff less_char_def less_eq_char_def




text \<open>
  Capitals beyond ASCII are lowered as well: the name made of code point 201 (E acute)
  and \<^verbatim>\<open>b\<close> comes after the name made of code point 233 (e acute) and \<^verbatim>\<open>a\<close>.
\<close>

lemma latin1_order:
  "lower [CHR 0xC9, CHR ''b''] = [CHR 0xE9, CHR ''b'']"
  "sorted_items (Directory [([CHR 0xC9, CHR ''b''], RegularFile), ([CHR 0xE9, CHR ''a''], RegularFile)])
     = Inr [([CHR 0xE9, CHR ''a''], RegularFile), ([CHR 0xC9, CHR ''b''], RegularFile)]"
  by (simp_all add: sorted_items_def sorted_py_def sort_key_of_def lower_def lower_char_def char_eval)




subsection \<open>Ignored entries\<close>







subsection \<open>The number of files in the result\<close>

lemma visible_no_limit:
  "max_depth config = None \<Longrightarrow> visible_files config d node = disk_files node"
proof (induction config d node rule: visible_files.induct)
  case (2 config d cs)
  then have m: "map (\<lambda>x. visible_files config (d + 1) (snd x)) cs = map (\<lambda>x. disk_files (snd x)) cs"
    by (auto simp: depth_limited_def)
  have "sum_list (map (\<lambda>x. visible_files config (d + 1) (snd x)) cs)
      = sum_list (map (\<lambda>x. disk_files (snd x)) cs)"
    by (simp only: m)
  with "2.prems" show ?case by (simp add: depth_limited_def)
qed simp_all

lemma total_files_update_new:
  "map_of kvs k = None
    \<Longrightarrow> total_files (JDict (AList.update k v kvs)) = total_files (JDict kvs) + total_files v"
  by (simp add: update_absent)

lemma total_files_append_file:
  "map_of kvs k = Some (JList fs)
    \<Longrightarrow> total_files (JDict (AList.update k (JList (fs @ [n])) kvs)) = total_files (JDict kvs) + 1"
  by (induction kvs) (auto split: if_splits)

lemma plain_tree_readable:
  "plain_tree config (Directory cs) \<Longrightarrow> list_all (\<lambda>x. snd x \<noteq> Unreachable) cs"
  by (auto simp: list_all_iff)

lemma distinct_fst_sort_key:
  "distinct (map fst (sort_key k xs)) \<longleftrightarrow> distinct (map fst xs)"
  by (rule mset_eq_imp_distinct_iff) simp

lemma walk_counts:
  "plain_tree config node \<Longrightarrow> is_dir node = Inr True
    \<Longrightarrow> \<exists>out. dir_to_json path node config d = (Inr out, [])
          \<and> total_files out = visible_files config d node"
  "\<forall>x \<in> set items. \<not> should_ignore config (fst x)
    \<Longrightarrow> \<forall>x \<in> set items. plain_tree config (snd x)
    \<Longrightarrow> \<forall>x \<in> set items. is_dir (snd x) = Inr True
          \<longrightarrow> fst x \<noteq> ''files'' \<and> map_of result (fst x) = None
    \<Longrightarrow> distinct (map fst items)
    \<Longrightarrow> \<exists>fs. map_of result ''files'' = Some (JList fs)
    \<Longrightarrow> \<exists>out. for_items path items config d result warns = (Inr (JDict out), warns)
          \<and> total_files (JDict out)
              = total_files (JDict result)
                + sum_list (map (\<lambda>x. visible_files config (d + 1) (snd x)) items)"
  "\<not> should_ignore config (fst item)
    \<Longrightarrow> plain_tree config (snd item)
    \<Longrightarrow> is_dir (snd item) = Inr True
          \<longrightarrow> fst item \<noteq> ''files'' \<and> map_of result (fst item) = None
    \<Longrightarrow> \<exists>fs. map_of result ''files'' = Some (JList fs)
    \<Longrightarrow> \<exists>r. visit path item config d result warns = (Inr r, warns)
          \<and> total_files (JDict r)
              = total_files (JDict result) + visible_files config (d + 1) (snd item)
          \<and> (\<exists>fs. map_of r ''files'' = Some (JList fs))
          \<and> (\<forall>k. map_of r k \<noteq> None \<longrightarrow> k = fst item \<or> map_of result k \<noteq> None)"
proof (induction path node config d and path items config d result warns
    and path item config d result warns
    rule: dir_to_json_for_items_visit.induct)
  case (1 path node config current_depth)
  note isd = "1.prems"(2)
  from isd have pe: "path_exists node = Inr True" by (rule is_dir_True_exists)
  from "1.prems" obtain cs where node: "node = Directory cs"
    by (cases node) auto
  show ?case
  proof (cases "depth_limited config current_depth")
    case True
    with isd node show ?thesis by (simp add: dir_to_json_dir empty_result_def)
  next
    case ndl: False
    let ?items = "sort_key item_key cs"
    have si: "sorted_items node = Inr ?items"
      unfolding node using "1.prems"(1)[unfolded node]
      by (intro sorted_items_readable plain_tree_readable)
    from "1.prems"(1) node have pt: "distinct (map fst cs)"
      "\<forall>x \<in> set cs. \<not> should_ignore config (fst x)"
      "\<forall>x \<in> set cs. plain_tree config (snd x)"
      "\<forall>x \<in> set cs. is_dir (snd x) = Inr True \<longrightarrow> fst x \<noteq> ''files''"
      by auto
    have a1: "\<forall>x \<in> set ?items. \<not> should_ignore config (fst x)" using pt(2) by simp
    have a2: "\<forall>x \<in> set ?items. plain_tree config (snd x)" using pt(3) by simp
    have a3: "\<forall>x \<in> set ?items. is_dir (snd x) = Inr True
          \<longrightarrow> fst x \<noteq> ''files'' \<and> map_of empty_result (fst x) = None"
      using pt(4) by (simp add: empty_result_def)
    have a4: "distinct (map fst ?items)" using pt(1) by (simp add: distinct_fst_sort_key)
    have a5: "\<exists>fs. map_of empty_result ''files'' = Some (JList fs)"
      by (simp add: empty_result_def)
    from "1.IH"[OF pe refl isd refl ndl si a1 a2 a3 a4 a5] obtain out where
        f: "for_items path ?items config current_depth empty_result [] = (Inr (JDict out), [])"
      and t: "total_files (JDict out) = total_files (JDict empty_result)
                + sum_list (map (\<lambda>x. visible_files config (current_depth + 1) (snd x)) ?items)"
      by blast
    have "sum_list (map (\<lambda>x. visible_files config (current_depth + 1) (snd x)) ?items)
        = sum_list (map (\<lambda>x. visible_files config (current_depth + 1) (snd x)) cs)"
      by (rule sum_list_mset_cong) simp
    with f t isd ndl si node show ?thesis
      by (simp add: dir_to_json_dir empty_result_def)
  qed
next
  case (2 path config current_depth result warns)
  then show ?case by simp
next
  case (3 path item rest config current_depth result warns)
  have b1: "\<not> should_ignore config (fst item)" using "3.prems"(1) by simp
  have b2: "plain_tree config (snd item)" using "3.prems"(2) by simp
  have b3: "is_dir (snd item) = Inr True
          \<longrightarrow> fst item \<noteq> ''files'' \<and> map_of result (fst item) = None"
    using "3.prems"(3) by simp
  from "3.IH"(1)[OF b1 b2 b3 "3.prems"(5)] obtain r where
      v: "visit path item config current_depth result warns = (Inr r, warns)"
    and tr: "total_files (JDict r)
              = total_files (JDict result) + visible_files config (current_depth + 1) (snd item)"
    and fr: "\<exists>fs. map_of r ''files'' = Some (JList fs)"
    and kr: "\<forall>k. map_of r k \<noteq> None \<longrightarrow> k = fst item \<or> map_of result k \<noteq> None"
    by blast
  have a1: "\<forall>x \<in> set rest. \<not> should_ignore config (fst x)" using "3.prems"(1) by simp
  have a2: "\<forall>x \<in> set rest. plain_tree config (snd x)" using "3.prems"(2) by simp
  have a4: "distinct (map fst rest)" and nin: "fst item \<notin> fst ` set rest"
    using "3.prems"(4) by auto
  have a3: "\<forall>x \<in> set rest. is_dir (snd x) = Inr True
          \<longrightarrow> fst x \<noteq> ''files'' \<and> map_of r (fst x) = None"
  proof (intro ballI impI conjI)
    fix x assume x: "x \<in> set rest" and d: "is_dir (snd x) = Inr True"
    from x d "3.prems"(3) show "fst x \<noteq> ''files''" by simp
    from x d "3.prems"(3) have "map_of result (fst x) = None" by simp
    moreover from x nin have "fst x \<noteq> fst item" by (metis imageI)
    ultimately show "map_of r (fst x) = None" using kr by blast
  qed
  from "3.IH"(2)[OF v[symmetric] refl a1 a2 a3 a4 fr] obtain out where
      f: "for_items path rest config current_depth r warns = (Inr (JDict out), warns)"
    and t: "total_files (JDict out) = total_files (JDict r)
              + sum_list (map (\<lambda>x. visible_files config (current_depth + 1) (snd x)) rest)"
    by blast
  from v f t tr show ?case by simp
next
  case (4 path item config current_depth result warns)
  note ni = "4.prems"(1)
  from "4.prems"(4) obtain fs where fs: "map_of result ''files'' = Some (JList fs)" by blast
  show ?case
  proof (cases "snd item")
    case RegularFile
    with ni fs show ?thesis
      by (auto simp: visit.simps append_file_def total_files_append_file update_conv'
          simp del: total_files.simps)
  next
    case (Directory cs)
    then have isd: "is_dir (snd item) = Inr True" and nf: "is_file (snd item) = Inr False"
      by simp_all
    from "4.prems"(3) isd have nm: "fst item \<noteq> ''files''" "map_of result (fst item) = None"
      by simp_all
    from "4.IH"[OF ni nf refl isd refl "4.prems"(2) isd] obtain sub where
        s: "dir_to_json (path @ [fst item]) (snd item) config (current_depth + 1) = (Inr sub, [])"
      and t: "total_files sub = visible_files config (current_depth + 1) (snd item)"
      by blast
    from ni nf isd s have "visit path item config current_depth result warns
        = (Inr (AList.update (fst item) sub result), warns)"
      by (simp add: visit.simps)
    with t nm fs show ?thesis
      by (auto simp: total_files_update_new update_conv' simp del: total_files.simps)
  next
    case LockedDir
    with "4.prems"(2) show ?thesis by simp
  next
    case Special
    with ni fs show ?thesis by (simp add: visit.simps)
  next
    case Missing
    with ni fs show ?thesis by (simp add: visit.simps)
  next
    case Unreachable
    with "4.prems"(2) show ?thesis by simp
  qed
qed

text \<open>
  Claim C9 as stated fails under a depth limit: with \<open>max_depth = 1\<close> a file in a
  subdirectory is on disk and in no file list.
\<close>

theorem total_file_count_counterexample:
  "plain_tree (default_config\<lparr>max_depth := Some 1\<rparr>)
       (Directory [(''docs'', Directory [(''guide.md'', RegularFile)])])
   \<and> dir_to_json [''proj''] (Directory [(''docs'', Directory [(''guide.md'', RegularFile)])])
       (default_config\<lparr>max_depth := Some 1\<rparr>) 0
     = (Inr (JDict [(''files'', JList []), (''docs'', JDict [(''files'', JList [])])]), [])
   \<and> total_files (JDict [(''files'', JList []), (''docs'', JDict [(''files'', JList [])])]) = 0
   \<and> disk_files (Directory [(''docs'', Directory [(''guide.md'', RegularFile)])]) = 1"
  by (simp add: dir_to_json.simps visit.simps depth_limited_def
      default_config_def sorted_items_def sorted_py_def sort_key_of_def lower_def lower_char_def
      empty_result_def should_ignore_def DEFAULT_IGNORES_def append_file_def char_eval)

text \<open>
  Claim C9, amended. For a tree in which every directory can be listed, no name is
  ignored and no directory is named \<^verbatim>\<open>files\<close>, \<open>dir_to_json\<close> returns without a
  warning and the entries of all the file lists of the result are as many as the
  regular files in the directories above the depth limit; with no depth limit that is
  the number of regular files under the target.
\<close>

theorem total_file_count:
  "(plain_tree config node \<and> is_dir node = Inr True \<longrightarrow>
      (\<exists>out. dir_to_json path node config d = (Inr out, [])
         \<and> total_files out = visible_files config d node))
   \<and> (max_depth config = None \<longrightarrow> visible_files config d node = disk_files node)"
  using walk_counts(1)[of config node path d] visible_no_limit[of config d node]
  by blast

theorem total_file_count_witness:
  "(\<exists>out. dir_to_json [''proj'']
       (Directory [(''README.md'', RegularFile), (''run.sock'', Special),
                   (''src'', Directory [(''main.py'', RegularFile), (''util.py'', RegularFile),
                                        (''pkg'', Directory [(''files'', RegularFile)])])])
       default_config 0 = (Inr out, [])
     \<and> total_files out = 4)
   \<and> disk_files (Directory [(''README.md'', RegularFile), (''run.sock'', Special),
                   (''src'', Directory [(''main.py'', RegularFile), (''util.py'', RegularFile),
                                        (''pkg'', Directory [(''files'', RegularFile)])])]) = 4"
  using total_file_count [where config = default_config and path = "[''proj'']" and d = 0
      and node = "Directory [(''README.md'', RegularFile), (''run.sock'', Special),
                   (''src'', Directory [(''main.py'', RegularFile), (''util.py'', RegularFile),
                                        (''pkg'', Directory [(''files'', RegularFile)])])]"]
  by (simp add: default_config_def should_ignore_def DEFAULT_IGNORES_def depth_limited_def
      eval_nat_numeral)

text \<open>
  A subdirectory named \<^verbatim>\<open>files\<close> takes the place of the file list under the key
  \<^verbatim>\<open>"files"\<close>; the files of that directory, which come after the subdirectories,
  then cannot be appended, and \<^verbatim>\<open>AttributeError\<close> leaves the call.
\<close>

lemma files_directory_breaks_walk:
  "dir_to_json [''proj'']
     (Directory [(''a.txt'', RegularFile), (''files'', Directory [(''x.txt'', RegularFile)])])
     default_config 0 = (Inl AttributeError, [])"
  by (simp add: dir_to_json.simps visit.simps depth_limited_def
      default_config_def sorted_items_def sorted_py_def sort_key_of_def lower_def lower_char_def
      empty_result_def should_ignore_def DEFAULT_IGNORES_def append_file_def on_error_def char_eval)

end
